theory Spec2Isabelle
  imports Main "HOL-Library.Word" "HOL-Library.Multiset" "HOL-Library.Sublist"
begin

unbundle bit_operations_syntax

section \<open>Data model (scanner package)\<close>

text \<open>
  A Go \<^verbatim>\<open>net.IP\<close> is a byte slice. A Go \<^verbatim>\<open>[]int\<close> is either the nil slice
  (\<open>None\<close>) or a slice with contents (\<open>Some xs\<close>): the two differ when they are
  serialised, so the model keeps them apart.
\<close>

type_synonym byte = "8 word"
type_synonym IP = "byte list"
type_synonym int_slice = "int list option"

record ScanResult =
  IP :: IP
  Hostname :: string
  MAC :: string
  Vendor :: string
  Method :: string
  OpenPorts :: int_slice
  Status :: string

text \<open>\<^verbatim>\<open>append(s, x)\<close> and \<^verbatim>\<open>len(s)\<close> on an int slice.\<close>

fun append_int :: "int_slice \<Rightarrow> int \<Rightarrow> int_slice" where
  "append_int None x = Some [x]"
| "append_int (Some xs) x = Some (xs @ [x])"

fun elems :: "int_slice \<Rightarrow> int list" where
  "elems None = []"
| "elems (Some xs) = xs"

section \<open>Probe cascade\<close>

text \<open>
  The network is the environment of the cascade: what the platform ping returns for an
  address, what a TCP dial to a port returns, and whether a UDP check of a port gets a
  reply. Every probe the code performs is logged, in order, so that "this step was (not)
  performed" is a statement about the log.
\<close>

datatype dial_result = Accepted | Refused | Failed

record net_env =
  ping :: "string \<Rightarrow> bool"
  dial :: "string \<Rightarrow> int \<Rightarrow> dial_result"
  udp_reply :: "string \<Rightarrow> int \<Rightarrow> bool"

datatype probe = Ping string | TcpDial string int | UdpCheck string int

definition tcpPorts :: "int list" where
  "tcpPorts = [22, 23, 53, 80, 443, 445, 139, 548,
               3389, 5900,
               8080, 8443, 8008, 8009,
               5353,
               7000, 7100,
               9100,
               62078,
               1883, 8883,
               554,
               5000, 5001,
               9090, 3000]"

definition udpPorts :: "int list" where
  "udpPorts = [5353, 1900, 137, 161, 53, 123]"

definition icmpPing :: "net_env \<Rightarrow> string \<Rightarrow> bool \<times> probe list" where
  "icmpPing env ip = (ping env ip, [Ping ip])"

text \<open>The loop of \<^verbatim>\<open>tcpProbe\<close> over the remaining ports, with the loop variables
  \<open>alive\<close>, \<open>openPorts\<close> and the log.\<close>

fun tcpProbe_loop ::
  "net_env \<Rightarrow> string \<Rightarrow> int list \<Rightarrow> bool \<Rightarrow> int_slice \<Rightarrow> probe list
     \<Rightarrow> (bool \<times> int_slice) \<times> probe list" where
  "tcpProbe_loop env ip [] alive openPorts log = ((alive, openPorts), log)"
| "tcpProbe_loop env ip (port # rest) alive openPorts log =
     (case dial env ip port of
        Accepted \<Rightarrow> tcpProbe_loop env ip rest True (append_int openPorts port) (log @ [TcpDial ip port])
      | Refused \<Rightarrow> tcpProbe_loop env ip rest True openPorts (log @ [TcpDial ip port])
      | Failed \<Rightarrow> tcpProbe_loop env ip rest alive openPorts (log @ [TcpDial ip port]))"

definition tcpProbe :: "net_env \<Rightarrow> string \<Rightarrow> (bool \<times> int_slice) \<times> probe list" where
  "tcpProbe env ip = tcpProbe_loop env ip tcpPorts False None []"

definition udpCheck :: "net_env \<Rightarrow> string \<Rightarrow> int \<Rightarrow> bool \<times> probe list" where
  "udpCheck env ip port = (udp_reply env ip port, [UdpCheck ip port])"

fun udpProbe_loop :: "net_env \<Rightarrow> string \<Rightarrow> int list \<Rightarrow> probe list \<Rightarrow> bool \<times> probe list" where
  "udpProbe_loop env ip [] log = (False, log)"
| "udpProbe_loop env ip (port # rest) log =
     (let (r, l) = udpCheck env ip port in
      if r then (True, log @ l) else udpProbe_loop env ip rest (log @ l))"

definition udpProbe :: "net_env \<Rightarrow> string \<Rightarrow> bool \<times> probe list" where
  "udpProbe env ip = udpProbe_loop env ip udpPorts []"

text \<open>\<^verbatim>\<open>detectHost\<close>: ping and the TCP sweep are both run first; the UDP probe is
  run only when neither proved the host alive.\<close>

definition detectHost :: "net_env \<Rightarrow> string \<Rightarrow> (string \<times> int_slice) \<times> probe list" where
  "detectHost env ip =
     (let (icmpAlive, l1) = icmpPing env ip;
          ((tcpAlive, openPorts), l2) = tcpProbe env ip
      in if icmpAlive then ((''ICMP'', openPorts), l1 @ l2)
         else if tcpAlive then ((''TCP'', openPorts), l1 @ l2)
         else (let (u, l3) = udpProbe env ip in
               if u then ((''UDP'', openPorts), l1 @ l2 @ l3)
               else (('''', None), l1 @ l2 @ l3)))"

text \<open>Two networks that answer ping and differ only in what the TCP dial returns.\<close>

definition env_open :: net_env where
  "env_open = \<lparr> ping = (\<lambda>_. True), dial = (\<lambda>_ _. Accepted), udp_reply = (\<lambda>_ _. False) \<rparr>"

definition env_closed :: net_env where
  "env_closed = \<lparr> ping = (\<lambda>_. True), dial = (\<lambda>_ _. Failed), udp_reply = (\<lambda>_ _. False) \<rparr>"


section \<open>Addresses as text: \<^verbatim>\<open>net.IP.String\<close>\<close>

text \<open>
  \<^verbatim>\<open>IP.String()\<close> is the key of every set in the scanner. It prints the nil slice as
  \<^verbatim>\<open><nil>\<close>, a slice of a length other than 4 or 16 as \<^verbatim>\<open>?\<close> followed by its hex
  digits, an IPv4 address (4 bytes, or 16 bytes with the IPv4-in-IPv6 prefix) as a dotted
  quad, and any other 16 bytes in IPv6 notation with the first longest run of two or more
  zero groups written \<^verbatim>\<open>::\<close>.
\<close>

definition digit_char :: "nat \<Rightarrow> char" where
  "digit_char d = char_of (48 + d)"

fun uitoa :: "nat \<Rightarrow> string" where
  "uitoa n = (if n < 10 then [digit_char n] else uitoa (n div 10) @ [digit_char (n mod 10)])"

declare uitoa.simps [simp del]

definition hex_char :: "nat \<Rightarrow> char" where
  "hex_char d = (if d < 10 then char_of (48 + d) else char_of (87 + d))"

fun hex_of :: "nat \<Rightarrow> string" where
  "hex_of n = (if n < 16 then [hex_char n] else hex_of (n div 16) @ [hex_char (n mod 16)])"

declare hex_of.simps [simp del]

definition hexString :: "IP \<Rightarrow> string" where
  "hexString ip = concat (map (\<lambda>b. [hex_char (unat b div 16), hex_char (unat b mod 16)]) ip)"

definition v4InV6Prefix :: "byte list" where
  "v4InV6Prefix = [0, 0, 0, 0, 0, 0, 0, 0, 0, 0, 0xff, 0xff]"

text \<open>\<^verbatim>\<open>IP.To4\<close>: the 4-byte form of an IPv4 address, or nil (\<open>None\<close>).\<close>

definition To4 :: "IP \<Rightarrow> IP option" where
  "To4 ip = (if length ip = 4 then Some ip
             else if length ip = 16 \<and> take 12 ip = v4InV6Prefix then Some (drop 12 ip)
             else None)"

definition dotted :: "IP \<Rightarrow> string" where
  "dotted p = uitoa (unat (p ! 0)) @ ''.'' @ uitoa (unat (p ! 1)) @ ''.''
              @ uitoa (unat (p ! 2)) @ ''.'' @ uitoa (unat (p ! 3))"

fun groups16 :: "byte list \<Rightarrow> nat list" where
  "groups16 (hi # lo # rest) = (unat hi * 256 + unat lo) # groups16 rest"
| "groups16 _ = []"

text \<open>The search for the run of zero groups to elide: \<open>(zeroStart, zeroEnd)\<close>, both 255
  when there is none.\<close>

function zero_run_end :: "nat list \<Rightarrow> nat \<Rightarrow> nat" where
  "zero_run_end g j = (if j < 8 \<and> j < length g \<and> g ! j = 0 then zero_run_end g (Suc j) else j)"
  by pat_completeness auto
termination
  by (relation "measure (\<lambda>(g, j). 8 - j)") auto

declare zero_run_end.simps [simp del]

fun zero_run :: "nat list \<Rightarrow> nat list \<Rightarrow> nat \<times> nat \<Rightarrow> nat \<times> nat" where
  "zero_run g [] z = z"
| "zero_run g (i # is) (zs, ze) =
     (let j = zero_run_end g i in
      if j - i \<ge> 2 \<and> j - i > ze - zs then zero_run g is (i, j) else zero_run g is (zs, ze))"

fun join_colon :: "string list \<Rightarrow> string" where
  "join_colon [] = []"
| "join_colon [x] = x"
| "join_colon (x # y # ys) = x @ '':'' @ join_colon (y # ys)"

text \<open>The groups before the elided run, \<^verbatim>\<open>::\<close>, and the groups after it; all eight groups
  when no run is elided.\<close>

definition string6 :: "IP \<Rightarrow> string" where
  "string6 ip =
     (let g = groups16 ip; (zs, ze) = zero_run g [0..<8] (255, 255) in
      if zs = 255 then join_colon (map hex_of g)
      else join_colon (map hex_of (take zs g)) @ ''::'' @ join_colon (map hex_of (drop ze g)))"

definition ipString :: "IP \<Rightarrow> string" where
  "ipString ip =
     (if length ip = 0 then ''<nil>''
      else if length ip \<noteq> 4 \<and> length ip \<noteq> 16 then ''?'' @ hexString ip
      else (case To4 ip of Some p4 \<Rightarrow> dotted p4 | None \<Rightarrow> string6 ip))"

section \<open>Diff engine (history.go, value semantics)\<close>

text \<open>
  A Go \<^verbatim>\<open>map[string]bool\<close> is a finite map; reading a missing key gives \<^verbatim>\<open>false\<close>.
\<close>

type_synonym str_set = "string \<rightharpoonup> bool"

definition lookup :: "str_set \<Rightarrow> string \<Rightarrow> bool" where
  "lookup m k = (case m k of None \<Rightarrow> False | Some b \<Rightarrow> b)"

text \<open>First loop of \<^verbatim>\<open>ComputeDiff\<close>: the keys of \<open>previous\<close>.\<close>

fun prevSet_loop :: "ScanResult list \<Rightarrow> str_set \<Rightarrow> str_set" where
  "prevSet_loop [] prevSet = prevSet"
| "prevSet_loop (r # rs) prevSet = prevSet_loop rs (prevSet(ipString (IP r) \<mapsto> True))"

text \<open>Second loop, by index \<open>i\<close>: records the key of \<open>current[i]\<close> and assigns
  \<^verbatim>\<open>current[i].Status = "NEW"\<close> when the key is not in \<open>prevSet\<close>.\<close>

function mark_loop ::
  "str_set \<Rightarrow> nat \<Rightarrow> ScanResult list \<Rightarrow> str_set \<Rightarrow> ScanResult list \<times> str_set" where
  "mark_loop prevSet i current curSet =
     (if i < length current then
        (let ip = ipString (IP (current ! i));
             curSet' = curSet(ip \<mapsto> True);
             current' = (if \<not> lookup prevSet ip
                         then current[i := (current ! i)\<lparr>Status := ''NEW''\<rparr>]
                         else current)
         in mark_loop prevSet (Suc i) current' curSet')
      else (current, curSet))"
  by pat_completeness auto
termination
  by (relation "measure (\<lambda>(p, i, c, s). length c - i)") auto

declare mark_loop.simps [simp del]

text \<open>Third loop: a copy of every entry of \<open>previous\<close> whose key is not in \<open>curSet\<close> is
  appended with status GONE.\<close>

fun gone_loop :: "str_set \<Rightarrow> ScanResult list \<Rightarrow> ScanResult list \<Rightarrow> ScanResult list" where
  "gone_loop curSet [] current = current"
| "gone_loop curSet (r # rs) current =
     (if \<not> lookup curSet (ipString (IP r))
      then gone_loop curSet rs (current @ [r\<lparr>Status := ''GONE''\<rparr>])
      else gone_loop curSet rs current)"

definition ComputeDiff :: "ScanResult list \<Rightarrow> ScanResult list \<Rightarrow> ScanResult list" where
  "ComputeDiff current previous =
     (let prevSet = prevSet_loop previous Map.empty;
          (current', curSet) = mark_loop prevSet 0 current Map.empty
      in gone_loop curSet previous current')"

text \<open>The key of an entry, and the keys of a result set.\<close>

definition key :: "ScanResult \<Rightarrow> string" where
  "key r = ipString (IP r)"

definition keys :: "ScanResult list \<Rightarrow> string set" where
  "keys rs = set (map key rs)"

text \<open>A freshly discovered host, as \<^verbatim>\<open>Scan\<close> builds it.\<close>

definition host :: "IP \<Rightarrow> string \<Rightarrow> int_slice \<Rightarrow> ScanResult" where
  "host ip m ports = \<lparr> IP = ip, Hostname = [], MAC = [], Vendor = [], Method = m,
                        OpenPorts = ports, Status = [] \<rparr>"

definition hostA :: ScanResult where "hostA = host [10, 0, 0, 1] ''TCP'' (Some [22])"
definition hostB :: ScanResult where "hostB = host [10, 0, 0, 2] ''ICMP'' None"
definition hostC :: ScanResult where "hostC = host [10, 0, 0, 3] ''UDP'' None"

text \<open>What the second loop does to one entry.\<close>

definition mark :: "str_set \<Rightarrow> ScanResult \<Rightarrow> ScanResult" where
  "mark prevSet r = (if lookup prevSet (key r) then r else r\<lparr>Status := ''NEW''\<rparr>)"

section \<open>Address enumerator (network.go)\<close>

text \<open>
  A \<^verbatim>\<open>net.IPNet\<close> is an address and a mask, both byte slices. The functions of package
  \<^verbatim>\<open>net\<close> that \<^verbatim>\<open>HostsInNetwork\<close> calls (\<^verbatim>\<open>IP.Mask\<close>, \<^verbatim>\<open>IPMask.Size\<close>, \<^verbatim>\<open>IPNet.Contains\<close>) are
  modelled on byte lists, the nil slice being the empty list.
\<close>

record IPNet =
  NetIP :: IP
  NetMask :: "byte list"

definition allFF :: "byte list \<Rightarrow> bool" where
  "allFF b = list_all (\<lambda>c. c = 0xff) b"

definition Mask :: "IP \<Rightarrow> byte list \<Rightarrow> IP" where
  "Mask ip msk =
     (let msk1 = (if length msk = 16 \<and> length ip = 4 \<and> allFF (take 12 msk)
                   then drop 12 msk else msk);
          ip1 = (if length msk1 = 4 \<and> length ip = 16 \<and> take 12 ip = v4InV6Prefix
                 then drop 12 ip else ip)
      in if length ip1 \<noteq> length msk1 then [] else map2 (AND) ip1 msk1)"

text \<open>\<^verbatim>\<open>simpleMaskLength\<close>: the number of leading one bits when the mask is ones followed by
  zeros, and -1 otherwise. The inner loop shifts the first byte that is not 0xff to the
  left while its top bit is set.\<close>

function ones_loop :: "byte \<Rightarrow> int \<Rightarrow> int \<times> byte" where
  "ones_loop v n = (if v AND 0x80 \<noteq> 0 then ones_loop (push_bit 1 v) (n + 1) else (n, v))"
  by pat_completeness auto
termination
proof (relation "measure (\<lambda>(v, n). unat v)")
  show "wf (measure (\<lambda>(v :: byte, n :: int). unat v))" by simp
next
  fix v :: byte and n :: int
  assume a: "v AND 0x80 \<noteq> 0"
  have b: "bit v 7"
    using a and_exp_eq_0_iff_not_bit [of v 7] by simp
  have ge: "128 \<le> unat v"
  proof (rule ccontr)
    assume "\<not> 128 \<le> unat v"
    then have "unat v div 2 ^ 7 = 0" by simp
    then have "\<not> bit (unat v) 7" by (simp add: bit_iff_odd)
    with b show False by (simp add: bit_unsigned_iff)
  qed
  have l: "unat v < 256" using unsigned_less [of v, where 'a = nat] by simp
  have "unat (push_bit 1 v) = (2 * unat v) mod 256"
    by (simp add: push_bit_eq_mult unat_word_ariths mult.commute)
  also have "\<dots> = 2 * unat v - 256"
    using ge l by (simp add: mod_if)
  finally have "unat (push_bit 1 v) < unat v" using ge l by simp
  then show "((push_bit 1 v, n + 1), (v, n)) \<in> measure (\<lambda>(v, n). unat v)"
    by simp
qed

declare ones_loop.simps [simp del]

fun simpleMaskLength_loop :: "byte list \<Rightarrow> int \<Rightarrow> int" where
  "simpleMaskLength_loop [] n = n"
| "simpleMaskLength_loop (v # rest) n =
     (if v = 0xff then simpleMaskLength_loop rest (n + 8)
      else (case ones_loop v n of (n', v') \<Rightarrow>
              if v' \<noteq> 0 then - 1
              else if list_ex (\<lambda>b. b \<noteq> 0) rest then - 1
              else n'))"

definition simpleMaskLength :: "byte list \<Rightarrow> int" where
  "simpleMaskLength msk = simpleMaskLength_loop msk 0"

definition Size :: "byte list \<Rightarrow> int \<times> int" where
  "Size m = (let ones = simpleMaskLength m; bits = int (length m) * 8
             in if ones = - 1 then (0, 0) else (ones, bits))"

definition networkNumberAndMask :: "IPNet \<Rightarrow> IP \<times> byte list" where
  "networkNumberAndMask n =
     (case (case To4 (NetIP n) of
              Some p \<Rightarrow> Some p
            | None \<Rightarrow> if length (NetIP n) \<noteq> 16 then None else Some (NetIP n)) of
        None \<Rightarrow> ([], [])
      | Some ip \<Rightarrow>
          if length (NetMask n) = 4 then
            (if length ip \<noteq> 4 then ([], []) else (ip, NetMask n))
          else if length (NetMask n) = 16 then
            (if length ip = 4 then (ip, drop 12 (NetMask n)) else (ip, NetMask n))
          else ([], []))"

definition Contains :: "IPNet \<Rightarrow> IP \<Rightarrow> bool" where
  "Contains n ip =
     (case networkNumberAndMask n of (nn, m) \<Rightarrow>
      let ip1 = (case To4 ip of Some x \<Rightarrow> x | None \<Rightarrow> ip);
          l = length ip1
      in if l \<noteq> length nn then False
         else list_all (\<lambda>i. (nn ! i) AND (m ! i) = (ip1 ! i) AND (m ! i)) [0..<l])"

text \<open>\<^verbatim>\<open>cloneIP\<close> copies the bytes into a fresh slice.\<close>

definition cloneIP :: "IP \<Rightarrow> IP" where
  "cloneIP ip = map (\<lambda>b. b) ip"

text \<open>\<^verbatim>\<open>incIP\<close>: add one to the last byte and carry to the left while a byte wraps to 0.
  \<open>incIP_loop (j + 1)\<close> is the loop at index \<open>j\<close>.\<close>

fun incIP_loop :: "nat \<Rightarrow> IP \<Rightarrow> IP" where
  "incIP_loop 0 ip = ip"
| "incIP_loop (Suc j) ip =
     (let ip' = ip[j := ip ! j + 1] in
      if ip' ! j > 0 then ip' else incIP_loop j ip')"

definition incIP :: "IP \<Rightarrow> IP" where
  "incIP ip = incIP_loop (length ip) ip"

text \<open>The loop of \<^verbatim>\<open>HostsInNetwork\<close> runs while the current address is in the network.
  Nothing in its form bounds it, so it is a partial function: \<open>None\<close> is a loop that does
  not end.\<close>

partial_function (option) hosts_loop :: "IPNet \<Rightarrow> IP \<Rightarrow> IP list \<Rightarrow> IP list option" where
  "hosts_loop network current hosts =
     (if Contains network current
      then hosts_loop network (incIP current) (hosts @ [cloneIP current])
      else Some hosts)"

declare hosts_loop.simps [code]

definition HostsInNetwork :: "IPNet \<Rightarrow> IP list option" where
  "HostsInNetwork network =
     (let ip = Mask (NetIP network) (NetMask network);
          (ones, bits) = Size (NetMask network)
      in if ones = 0 \<or> ones = bits then Some []
         else (case hosts_loop network (cloneIP ip) [] of
                 None \<Rightarrow> None
               | Some hosts \<Rightarrow>
                   Some (if length hosts > 2 then drop 1 (take (length hosts - 1) hosts)
                         else [])))"

text \<open>\<^verbatim>\<open>net.CIDRMask(ones, bits)\<close>, the mask of a prefix length.\<close>

fun CIDRMask_loop :: "nat \<Rightarrow> nat \<Rightarrow> byte list" where
  "CIDRMask_loop 0 n = []"
| "CIDRMask_loop (Suc l) n =
     (if n \<ge> 8 then 0xff # CIDRMask_loop l (n - 8)
      else NOT (drop_bit n 0xff) # CIDRMask_loop l 0)"

definition CIDRMask :: "int \<Rightarrow> int \<Rightarrow> byte list" where
  "CIDRMask ones bits =
     (if bits \<noteq> 32 \<and> bits \<noteq> 128 then []
      else if ones < 0 \<or> ones > bits then []
      else CIDRMask_loop (nat (bits div 8)) (nat ones))"

text \<open>The address with a given 32-bit value, and the value of four bytes.\<close>

definition ip_of_nat :: "nat \<Rightarrow> IP" where
  "ip_of_nat n = [of_nat (n div 2 ^ 24), of_nat (n div 2 ^ 16), of_nat (n div 2 ^ 8), of_nat n]"

definition be32 :: "byte list \<Rightarrow> 32 word" where
  "be32 p = push_bit 24 (ucast (p ! 0)) OR push_bit 16 (ucast (p ! 1))
            OR push_bit 8 (ucast (p ! 2)) OR ucast (p ! 3)"

text \<open>The value of the network address of the network of \<open>q\<close> with prefix length \<open>p\<close>.\<close>

definition network_number :: "byte list \<Rightarrow> nat \<Rightarrow> nat" where
  "network_number q p = (unat (be32 q) div 2 ^ (32 - p)) * 2 ^ (32 - p)"

section \<open>Scan orchestrator\<close>

text \<open>
  The workers of \<^verbatim>\<open>Scan\<close> run concurrently, but the test of \<open>foundSet\<close> and the append
  to \<open>results\<close> happen under one mutex: the shared state goes through the jobs' critical
  sections one at a time, in the order in which the workers take the lock. That order is
  a parameter (\<open>order\<close>, a list of job indices). The network may answer differently from
  one job to the next, so every job has its own environment \<open>envs idx\<close>. The progress
  channel carries no state the result depends on and is left out.
\<close>

type_synonym scan_state = "str_set \<times> ScanResult list"

definition scan_job :: "(nat \<Rightarrow> net_env) \<Rightarrow> IP list \<Rightarrow> nat \<Rightarrow> scan_state \<Rightarrow> scan_state" where
  "scan_job envs hosts idx st =
     (case st of (foundSet, results) \<Rightarrow>
      if idx < length hosts then
        (let ip = hosts ! idx;
             ipStr = ipString ip;
             (method, openPorts) = fst (detectHost (envs idx) ipStr)
         in if method \<noteq> [] then
              (if \<not> lookup foundSet ipStr
               then (foundSet(ipStr \<mapsto> True),
                     results @ [\<lparr> IP = cloneIP ip, Hostname = [], MAC = [], Vendor = [],
                                  Method = method, OpenPorts = openPorts, Status = [] \<rparr>])
               else (foundSet, results))
            else (foundSet, results))
      else (foundSet, results))"

definition scan_phase1 :: "(nat \<Rightarrow> net_env) \<Rightarrow> IP list \<Rightarrow> nat list \<Rightarrow> scan_state" where
  "scan_phase1 envs hosts order = fold (scan_job envs hosts) order (Map.empty, [])"

text \<open>Phase 2: the hosts not in \<open>foundSet\<close> that have a non-empty entry in the ARP table.
  The table (\<^verbatim>\<open>GetARPTable\<close>) is an input.\<close>

fun arp_loop :: "(string \<rightharpoonup> string) \<Rightarrow> str_set \<Rightarrow> IP list \<Rightarrow> ScanResult list \<Rightarrow> ScanResult list" where
  "arp_loop arpTable foundSet [] results = results"
| "arp_loop arpTable foundSet (ip # rest) results =
     (let ipStr = ipString ip in
      if lookup foundSet ipStr then arp_loop arpTable foundSet rest results
      else (case arpTable ipStr of
              Some mac \<Rightarrow>
                if mac \<noteq> [] then
                  arp_loop arpTable foundSet rest
                    (results @ [\<lparr> IP = cloneIP ip, Hostname = [], MAC = [], Vendor = [],
                                  Method = ''ARP'', OpenPorts = None, Status = [] \<rparr>])
                else arp_loop arpTable foundSet rest results
            | None \<Rightarrow> arp_loop arpTable foundSet rest results))"

definition Scan :: "(nat \<Rightarrow> net_env) \<Rightarrow> (string \<rightharpoonup> string) \<Rightarrow> nat list \<Rightarrow> IP list \<Rightarrow> ScanResult list" where
  "Scan envs arpTable order hosts =
     (case scan_phase1 envs hosts order of
        (foundSet, results) \<Rightarrow> arp_loop arpTable foundSet hosts results)"

text \<open>The lock orders that \<open>workers\<close> workers can produce on \<open>n\<close> jobs: every job exactly
  once when there is a worker, none when there is no worker to take them.\<close>

definition schedule :: "int \<Rightarrow> nat \<Rightarrow> nat list \<Rightarrow> bool" where
  "schedule workers n order =
     (if workers \<le> 0 then order = [] else mset order = mset [0..<n])"

text \<open>The live entries of a result set are those whose status is not GONE.\<close>

definition live :: "ScanResult list \<Rightarrow> ScanResult list" where
  "live rs = filter (\<lambda>r. Status r \<noteq> ''GONE'') rs"




text \<open>The invariant of the shared state of phase 1.\<close>

definition scan_inv :: "scan_state \<Rightarrow> bool" where
  "scan_inv st = (case st of (foundSet, results) \<Rightarrow>
     distinct (map key results) \<and> (\<forall>k. lookup foundSet k = (k \<in> keys results))
     \<and> (\<forall>r \<in> set results. Status r = []))"


section \<open>History store (history.go)\<close>

text \<open>
  The history file holds a JSON document. The model works on the document as a value:
  what \<^verbatim>\<open>encoding/json\<close> builds from the Go value it is given and what it rebuilds from
  a document. The text layer of \<^verbatim>\<open>encoding/json\<close> (indentation, string escapes) is not
  part of the model. A file whose bytes are not a JSON document is \<open>Garbage\<close>.
\<close>

datatype json = JNull | JBool bool | JNum int | JStr string | JArr "json list"
  | JObj "(string \<times> json) list"

datatype file_content = Doc json | Garbage

datatype error = MkdirError | WriteError | ReadError | UnmarshalError

record historyEntry =
  hIP :: string
  hHostname :: string
  hMAC :: string
  hVendor :: string
  hMethod :: string
  hOpenPorts :: int_slice

definition zero_entry :: historyEntry where
  "zero_entry = \<lparr> hIP = [], hHostname = [], hMAC = [], hVendor = [], hMethod = [],
                   hOpenPorts = None \<rparr>"

text \<open>\<^verbatim>\<open>json.Marshal\<close> of a \<^verbatim>\<open>[]int\<close> (the nil slice is written \<^verbatim>\<open>null\<close>), of a
  \<^verbatim>\<open>historyEntry\<close> (one member per field, under its tag) and of a non-nil
  \<^verbatim>\<open>[]historyEntry\<close>.\<close>

fun marshal_ints :: "int_slice \<Rightarrow> json" where
  "marshal_ints None = JNull"
| "marshal_ints (Some xs) = JArr (map JNum xs)"

definition marshal_entry :: "historyEntry \<Rightarrow> json" where
  "marshal_entry e = JObj [(''ip'', JStr (hIP e)), (''hostname'', JStr (hHostname e)),
                           (''mac'', JStr (hMAC e)), (''vendor'', JStr (hVendor e)),
                           (''method'', JStr (hMethod e)),
                           (''open_ports'', marshal_ints (hOpenPorts e))]"

definition Marshal :: "historyEntry list \<Rightarrow> json" where
  "Marshal entries = JArr (map marshal_entry entries)"











subsection \<open>\<^verbatim>\<open>net.ParseIP\<close>\<close>

text \<open>
  \<^verbatim>\<open>ParseIP\<close> looks for the first dot or colon. With a dot first, the text must be four
  decimal fields of at most 255, without a leading zero, separated by dots, and the
  result is the 16-byte form of the IPv4 address. With a colon first the text goes to
  the IPv6 parser, which is a parameter (\<open>parseIPv6\<close>) of the model. Anything else is nil.
\<close>

definition is_digit :: "char \<Rightarrow> bool" where
  "is_digit c = (48 \<le> (of_char c :: nat) \<and> (of_char c :: nat) \<le> 57)"

definition digit_val :: "char \<Rightarrow> nat" where
  "digit_val c = of_char c - 48"

definition big :: nat where
  "big = 0xFFFFFF"

fun dtoi_loop :: "string \<Rightarrow> nat \<Rightarrow> nat \<Rightarrow> nat \<times> nat \<times> bool" where
  "dtoi_loop [] n i = (if i = 0 then (0, 0, False) else (n, i, True))"
| "dtoi_loop (c # cs) n i =
     (if is_digit c then
        (let n' = n * 10 + digit_val c in
         if n' \<ge> big then (big, i, False) else dtoi_loop cs n' (Suc i))
      else (if i = 0 then (0, 0, False) else (n, i, True)))"

definition dtoi :: "string \<Rightarrow> nat \<times> nat \<times> bool" where
  "dtoi s = dtoi_loop s 0 0"

function parseIPv4_loop :: "nat \<Rightarrow> string \<Rightarrow> byte list \<Rightarrow> IP option" where
  "parseIPv4_loop i s p =
     (if i < 4 then
        (if s = [] then None
         else (case (if i > 0 then (if hd s \<noteq> CHR ''.'' then None else Some (tl s)) else Some s) of
                 None \<Rightarrow> None
               | Some s1 \<Rightarrow>
                   (case dtoi s1 of (n, c, ok) \<Rightarrow>
                      if \<not> ok \<or> n > 0xFF then None
                      else if c > 1 \<and> hd s1 = CHR ''0'' then None
                      else parseIPv4_loop (Suc i) (drop c s1) (p @ [of_nat n]))))
      else if s \<noteq> [] then None
      else Some (v4InV6Prefix @ p))"
  by pat_completeness auto
termination
  by (relation "measure (\<lambda>(i, s, p). 4 - i)") auto

declare parseIPv4_loop.simps [simp del]

definition parseIPv4 :: "string \<Rightarrow> IP" where
  "parseIPv4 s = (case parseIPv4_loop 0 s [] of None \<Rightarrow> [] | Some ip \<Rightarrow> ip)"

fun ParseIP_scan :: "(string \<Rightarrow> IP) \<Rightarrow> string \<Rightarrow> string \<Rightarrow> IP" where
  "ParseIP_scan parseIPv6 s [] = []"
| "ParseIP_scan parseIPv6 s (c # cs) =
     (if c = CHR ''.'' then parseIPv4 s
      else if c = CHR '':'' then parseIPv6 s
      else ParseIP_scan parseIPv6 s cs)"

definition ParseIP :: "(string \<Rightarrow> IP) \<Rightarrow> string \<Rightarrow> IP" where
  "ParseIP parseIPv6 s = ParseIP_scan parseIPv6 s s"

subsection \<open>\<^verbatim>\<open>SaveHistory\<close> and \<^verbatim>\<open>LoadHistory\<close>\<close>

text \<open>
  The state of the file system is the content of the history file, if the file exists.
  What can go wrong outside the program is an input: \<^verbatim>\<open>MkdirAll\<close> may fail, and
  \<^verbatim>\<open>WriteFile\<close> may fail and leave the file in some state.
\<close>

type_synonym fs = "file_content option"

record os_faults =
  mkdir_fails :: bool
  write_fails :: bool
  after_failed_write :: fs

definition to_entry :: "ScanResult \<Rightarrow> historyEntry" where
  "to_entry r =
     (let ports = OpenPorts r;
          ports = (if ports = None then Some [] else ports)
      in \<lparr> hIP = ipString (IP r), hHostname = Hostname r, hMAC = MAC r, hVendor = Vendor r,
           hMethod = Method r, hOpenPorts = ports \<rparr>)"

fun save_loop :: "nat \<Rightarrow> ScanResult list \<Rightarrow> historyEntry list \<Rightarrow> historyEntry list" where
  "save_loop i [] entries = entries"
| "save_loop i (r # rs) entries = save_loop (Suc i) rs (entries[i := to_entry r])"

definition SaveHistory :: "os_faults \<Rightarrow> fs \<Rightarrow> ScanResult list \<Rightarrow> error option \<times> fs" where
  "SaveHistory faults file results =
     (if mkdir_fails faults then (Some MkdirError, file)
      else (let entries = save_loop 0 results (replicate (length results) zero_entry);
                data = Marshal entries
            in if write_fails faults then (Some WriteError, after_failed_write faults)
               else (None, Some (Doc data))))"





section \<open>The main program: enrichment, sorting, diff\<close>

text \<open>\<^verbatim>\<open>ipToUint32\<close>: the sort key, 0 for a value that is not an IPv4 address.\<close>

definition ipToUint32 :: "IP \<Rightarrow> 32 word" where
  "ipToUint32 ip =
     (case To4 ip of
        None \<Rightarrow> 0
      | Some p \<Rightarrow> be32 p)"

text \<open>
  \<^verbatim>\<open>sort.Slice\<close> is not a stable sort: all it promises is a permutation of its input
  that is ordered by the comparison. The model is that contract, as a relation between
  the slice before and after.
\<close>

definition sort_Slice :: "ScanResult list \<Rightarrow> ScanResult list \<Rightarrow> bool" where
  "sort_Slice xs ys = (mset ys = mset xs \<and> sorted (map (\<lambda>r. ipToUint32 (IP r)) ys))"

text \<open>The external collaborators of the enrichment step: reverse DNS, the ARP table read
  after the scan, and the vendor table.\<close>

record collaborators =
  ResolveHostname :: "string \<Rightarrow> string"
  ARPTable :: "string \<rightharpoonup> string"
  LookupVendor :: "string \<Rightarrow> string"

definition enrich :: "collaborators \<Rightarrow> ScanResult \<Rightarrow> ScanResult" where
  "enrich co r =
     (let ipStr = ipString (IP r);
          r1 = r\<lparr>Hostname := ResolveHostname co ipStr\<rparr>
      in case ARPTable co ipStr of
           Some mac \<Rightarrow> r1\<lparr>MAC := mac, Vendor := LookupVendor co mac\<rparr>
         | None \<Rightarrow> r1\<lparr>MAC := ''-'', Vendor := ''-''\<rparr>)"

text \<open>
  The diff branch of \<^verbatim>\<open>main\<close>, from the scan result to the set handed to the renderer:
  \<open>s1\<close> is the enriched, sorted scan result, \<open>final\<close> the re-sorted result of the diff
  against \<open>previous\<close> (empty when the history could not be loaded).
\<close>

definition main_diff ::
  "collaborators \<Rightarrow> ScanResult list \<Rightarrow> ScanResult list \<Rightarrow> ScanResult list \<Rightarrow> ScanResult list \<Rightarrow> bool" where
  "main_diff co scanned previous s1 final =
     (sort_Slice (map (enrich co) scanned) s1 \<and> sort_Slice (ComputeDiff s1 previous) final)"

text \<open>The loop that collects the entries to save.\<close>

fun toSave_loop :: "ScanResult list \<Rightarrow> ScanResult list \<Rightarrow> ScanResult list" where
  "toSave_loop [] toSave = toSave"
| "toSave_loop (r # rs) toSave =
     (if Status r \<noteq> ''GONE'' then toSave_loop rs (toSave @ [r]) else toSave_loop rs toSave)"

definition no_collaborators :: collaborators where
  "no_collaborators = \<lparr> ResolveHostname = (\<lambda>_. []), ARPTable = Map.empty, LookupVendor = (\<lambda>_. []) \<rparr>"


definition arp_entry_5 :: ScanResult where
  "arp_entry_5 = host [10, 0, 0, 5] ''ARP'' None"



definition enriched_5 :: ScanResult where
  "enriched_5 = arp_entry_5\<lparr>MAC := ''-'', Vendor := ''-''\<rparr>"

text \<open>The save step of \<^verbatim>\<open>main\<close>: the entries whose status is not GONE go to
  \<^verbatim>\<open>SaveHistory\<close>.\<close>

definition main_save :: "os_faults \<Rightarrow> fs \<Rightarrow> ScanResult list \<Rightarrow> error option \<times> fs" where
  "main_save faults file final = SaveHistory faults file (toSave_loop final [])"


definition no_faults :: os_faults where
  "no_faults = \<lparr> mkdir_fails = False, write_fails = False, after_failed_write = None \<rparr>"


text \<open>A host that answers no ping and has the two SMB ports open, alone on its network,
  on a machine with an empty ARP table and no history.\<close>

definition env_smb :: net_env where
  "env_smb = \<lparr> ping = (\<lambda>_. False),
               dial = (\<lambda>_ port. if port = 445 \<or> port = 139 then Accepted else Failed),
               udp_reply = (\<lambda>_ _. False) \<rparr>"

definition envs_smb :: "nat \<Rightarrow> net_env" where
  "envs_smb = (\<lambda>_. env_smb)"

definition arp_none :: "string \<rightharpoonup> string" where
  "arp_none = Map.empty"

definition smb_host :: ScanResult where
  "smb_host = (host [10, 0, 0, 5] ''TCP'' (Some [445, 139]))\<lparr>MAC := ''-'', Vendor := ''-''\<rparr>"

section \<open>Probe cascade: properties\<close>

lemma tcpProbe_loop_log:
  "snd (tcpProbe_loop env ip ports alive op log) = log @ map (TcpDial ip) ports"
  by (induction ports arbitrary: alive op log) (auto split: dial_result.splits)

lemma tcpProbe_log: "snd (tcpProbe env ip) = map (TcpDial ip) tcpPorts"
  by (simp add: tcpProbe_def tcpProbe_loop_log)

lemma detectHost_log_prefix:
  "take (Suc (length tcpPorts)) (snd (detectHost env ip)) = Ping ip # map (TcpDial ip) tcpPorts"
proof -
  obtain ta tp where t: "fst (tcpProbe env ip) = (ta, tp)" by (cases "fst (tcpProbe env ip)")
  obtain u l3 where u: "udpProbe env ip = (u, l3)" by (cases "udpProbe env ip")
  from t have tp: "tcpProbe env ip = ((ta, tp), map (TcpDial ip) tcpPorts)"
    using tcpProbe_log [of env ip] by (cases "tcpProbe env ip") simp
  show ?thesis
    by (simp add: detectHost_def icmpPing_def tp u)
qed

lemma detectHost_no_udp:
  assumes "ping env ip \<or> fst (fst (tcpProbe env ip))"
  shows "snd (detectHost env ip) = Ping ip # map (TcpDial ip) tcpPorts"
proof -
  obtain ta tp where t: "fst (tcpProbe env ip) = (ta, tp)" by (cases "fst (tcpProbe env ip)")
  from t have tp: "tcpProbe env ip = ((ta, tp), map (TcpDial ip) tcpPorts)"
    using tcpProbe_log [of env ip] by (cases "tcpProbe env ip") simp
  from assms t show ?thesis
    by (auto simp: detectHost_def icmpPing_def tp)
qed

lemma detectHost_icmp:
  assumes "ping env ip"
  shows "fst (detectHost env ip) = (''ICMP'', snd (fst (tcpProbe env ip)))"
  using assms
  by (cases "tcpProbe env ip") (auto simp: detectHost_def icmpPing_def split: prod.splits)

text \<open>
  C6. For every address and every network, \<^verbatim>\<open>detectHost\<close> returns the method ICMP
  whenever the ping step succeeds, whatever the TCP dials and the UDP checks return.
\<close>

theorem detectHost_icmp_wins:
  "ping env ip \<Longrightarrow> fst (fst (detectHost env ip)) = ''ICMP''"
  by (cases "tcpProbe env ip") (auto simp: detectHost_def icmpPing_def split: prod.splits)

theorem detectHost_icmp_wins_witness:
  "ping env_closed ''10.0.0.5'' \<and> fst (fst (detectHost env_closed ''10.0.0.5'')) = ''ICMP''"
proof -
  have h: "ping env_closed ''10.0.0.5''" by (simp add: env_closed_def)
  from detectHost_icmp_wins [OF h] h show ?thesis by simp
qed

text \<open>
  C8, as the claim states it, fails: with a successful ping the TCP sweep is still
  performed (the dial of port 22 is in the log), and the returned open ports depend on
  what the dials return.
\<close>

theorem detectHost_short_circuit_counterexample:
  "ping env_open ''10.0.0.5'' \<and> ping env_closed ''10.0.0.5''
   \<and> TcpDial ''10.0.0.5'' 22 \<in> set (snd (detectHost env_open ''10.0.0.5''))
   \<and> fst (detectHost env_open ''10.0.0.5'') \<noteq> fst (detectHost env_closed ''10.0.0.5'')"
proof -
  have a: "ping env_open ''10.0.0.5''" by (simp add: env_open_def)
  have b: "ping env_closed ''10.0.0.5''" by (simp add: env_closed_def)
  have c: "TcpDial ''10.0.0.5'' 22 \<in> set (snd (detectHost env_open ''10.0.0.5''))"
    by (simp add: detectHost_no_udp [OF disjI1 [OF a]] tcpPorts_def)
  have d: "snd (fst (tcpProbe env_open ''10.0.0.5'')) = Some tcpPorts"
    by (simp add: tcpProbe_def tcpPorts_def env_open_def)
  have e: "snd (fst (tcpProbe env_closed ''10.0.0.5'')) = None"
    by (simp add: tcpProbe_def tcpPorts_def env_closed_def)
  from a b c d e show ?thesis
    by (simp add: detectHost_icmp)
qed

text \<open>
  C8, amended. The log of \<^verbatim>\<open>detectHost\<close> always starts with the ping followed by the
  dial of every port of \<^verbatim>\<open>tcpPorts\<close>, in order: the TCP sweep is performed in full also
  after a successful ping. When the ping or the TCP sweep proved the host alive, that is
  the whole log: no UDP check is performed. After a successful ping the result is ICMP
  together with the open ports the sweep found.
\<close>

theorem detectHost_short_circuit:
  "take (Suc (length tcpPorts)) (snd (detectHost env ip)) = Ping ip # map (TcpDial ip) tcpPorts
   \<and> (ping env ip \<or> fst (fst (tcpProbe env ip))
        \<longrightarrow> snd (detectHost env ip) = Ping ip # map (TcpDial ip) tcpPorts)
   \<and> (ping env ip \<longrightarrow> fst (detectHost env ip) = (''ICMP'', snd (fst (tcpProbe env ip))))"
  using detectHost_log_prefix detectHost_no_udp detectHost_icmp by blast

theorem detectHost_short_circuit_witness:
  "ping env_open ''10.0.0.5''
   \<and> snd (detectHost env_open ''10.0.0.5'') = Ping ''10.0.0.5'' # map (TcpDial ''10.0.0.5'') tcpPorts
   \<and> fst (detectHost env_open ''10.0.0.5'') = (''ICMP'', Some tcpPorts)"
proof -
  have a: "ping env_open ''10.0.0.5''" by (simp add: env_open_def)
  have d: "snd (fst (tcpProbe env_open ''10.0.0.5'')) = Some tcpPorts"
    by (simp add: tcpProbe_def tcpPorts_def env_open_def)
  from detectHost_short_circuit [of env_open "''10.0.0.5''"] a d show ?thesis by simp
qed


section \<open>Diff engine: properties\<close>

lemma lookup_prevSet_loop:
  "lookup (prevSet_loop rs m) k = (k \<in> keys rs \<or> lookup m k)"
  by (induction rs arbitrary: m) (auto simp: lookup_def keys_def key_def)

lemma lookup_empty [simp]: "lookup Map.empty k = False"
  by (simp add: lookup_def)

lemma key_mark [simp]: "key (mark p r) = key r"
  by (simp add: mark_def key_def)

lemma mark_loop_char:
  "i \<le> length current \<Longrightarrow>
   mark_loop prevSet i current curSet =
     (take i current @ map (mark prevSet) (drop i current),
      (\<lambda>k. if k \<in> keys (drop i current) then Some True else curSet k))"
proof (induction prevSet i current curSet rule: mark_loop.induct)
  case (1 prevSet i current curSet)
  show ?case
  proof (cases "i < length current")
    case False
    with "1.prems" have "i = length current" by simp
    then show ?thesis by (subst mark_loop.simps) (simp add: keys_def)
  next
    case True
    let ?ip = "ipString (IP (current ! i))"
    let ?c' = "if \<not> lookup prevSet ?ip then current[i := (current ! i)\<lparr>Status := ''NEW''\<rparr>] else current"
    have len: "length ?c' = length current" by simp
    have c': "?c' = current[i := mark prevSet (current ! i)]"
      by (simp add: mark_def key_def)
    have IH: "mark_loop prevSet (Suc i) ?c' (curSet(?ip \<mapsto> True)) =
        (take (Suc i) ?c' @ map (mark prevSet) (drop (Suc i) ?c'),
         (\<lambda>k. if k \<in> keys (drop (Suc i) ?c') then Some True else (curSet(?ip \<mapsto> True)) k))"
      proof (rule "1.IH" [OF True refl refl refl])
      show "Suc i \<le> length ?c'" using True by simp
    qed
    have d: "drop (Suc i) ?c' = drop (Suc i) current" by simp
    have t: "take (Suc i) ?c' = take i current @ [mark prevSet (current ! i)]"
      using True by (simp only: c') (simp add: take_Suc_conv_app_nth)
    have dr: "drop i current = current ! i # drop (Suc i) current"
      using True by (simp add: Cons_nth_drop_Suc)
    have "mark_loop prevSet i current curSet = mark_loop prevSet (Suc i) ?c' (curSet(?ip \<mapsto> True))"
      using True by (subst mark_loop.simps) (simp add: Let_def)
    also have "\<dots> = (take i current @ map (mark prevSet) (drop i current),
      (\<lambda>k. if k \<in> keys (drop i current) then Some True else curSet k))"
      unfolding IH d t by (simp add: dr keys_def key_def fun_eq_iff)
    finally show ?thesis .
  qed
qed

lemma gone_loop_char:
  "gone_loop curSet rs current =
     current @ map (\<lambda>r. r\<lparr>Status := ''GONE''\<rparr>) (filter (\<lambda>r. \<not> lookup curSet (key r)) rs)"
  by (induction rs arbitrary: current) (auto simp: key_def)

lemma ComputeDiff_char:
  "ComputeDiff current previous =
     map (\<lambda>r. if key r \<in> keys previous then r else r\<lparr>Status := ''NEW''\<rparr>) current
     @ map (\<lambda>r. r\<lparr>Status := ''GONE''\<rparr>) (filter (\<lambda>r. key r \<notin> keys current) previous)"
proof -
  have m: "mark (prevSet_loop previous Map.empty) = (\<lambda>r. if key r \<in> keys previous then r else r\<lparr>Status := ''NEW''\<rparr>)"
    by (rule ext) (simp add: mark_def lookup_prevSet_loop)
  have l: "lookup (\<lambda>k. if k \<in> keys current then Some True else None) = (\<lambda>k. k \<in> keys current)"
    by (rule ext) (simp add: lookup_def)
  show ?thesis
    by (simp add: ComputeDiff_def mark_loop_char gone_loop_char m l)
qed






lemma ComputeDiff_example:
  "ComputeDiff [hostB, hostC] [hostA, hostB]
     = [hostB, hostC\<lparr>Status := ''NEW''\<rparr>, hostA\<lparr>Status := ''GONE''\<rparr>]"
  by code_simp

text \<open>
  C1. For every current and previous result set, \<^verbatim>\<open>ComputeDiff\<close> returns the current
  entries in order, with status NEW assigned to exactly those whose address (key) is
  absent from previous and the others returned as they were passed (so a status that was
  unset stays unset), followed by one copy with status GONE, all other fields kept, of
  exactly those previous entries whose address is absent from current. When every
  current entry comes with its status unset, the statuses of the current entries in the
  output are NEW for the absent ones and unset for the ones present in both. For
  previous = {A, B} and current = {B, C} the output is B unset, C NEW, A GONE.
\<close>

theorem ComputeDiff_classifies:
  "ComputeDiff current previous =
     map (\<lambda>r. if key r \<in> keys previous then r else r\<lparr>Status := ''NEW''\<rparr>) current
     @ map (\<lambda>r. r\<lparr>Status := ''GONE''\<rparr>) (filter (\<lambda>r. key r \<notin> keys current) previous)
   \<and> ((\<forall>r \<in> set current. Status r = [])
        \<longrightarrow> map Status (take (length current) (ComputeDiff current previous))
            = map (\<lambda>r. if key r \<in> keys previous then [] else ''NEW'') current)
   \<and> ComputeDiff [hostB, hostC] [hostA, hostB]
       = [hostB, hostC\<lparr>Status := ''NEW''\<rparr>, hostA\<lparr>Status := ''GONE''\<rparr>]"
proof (intro conjI impI)
  show "ComputeDiff current previous =
     map (\<lambda>r. if key r \<in> keys previous then r else r\<lparr>Status := ''NEW''\<rparr>) current
     @ map (\<lambda>r. r\<lparr>Status := ''GONE''\<rparr>) (filter (\<lambda>r. key r \<notin> keys current) previous)"
    by (rule ComputeDiff_char)
next
  assume "\<forall>r \<in> set current. Status r = []"
  then show "map Status (take (length current) (ComputeDiff current previous))
            = map (\<lambda>r. if key r \<in> keys previous then [] else ''NEW'') current"
    by (simp add: ComputeDiff_char)
next
  show "ComputeDiff [hostB, hostC] [hostA, hostB]
       = [hostB, hostC\<lparr>Status := ''NEW''\<rparr>, hostA\<lparr>Status := ''GONE''\<rparr>]"
    by (rule ComputeDiff_example)
qed

theorem ComputeDiff_classifies_witness:
  "Status hostB = [] \<and> Status hostC = []
   \<and> map Status (take (length [hostB, hostC]) (ComputeDiff [hostB, hostC] [hostA, hostB]))
       = [[], ''NEW'']
   \<and> map Status (ComputeDiff [hostB, hostC] [hostA, hostB]) = [[], ''NEW'', ''GONE'']"
proof -
  have sb: "Status hostB = []" by (simp add: hostB_def host_def)
  have sc: "Status hostC = []" by (simp add: hostC_def host_def)
  have h: "\<forall>r \<in> set [hostB, hostC]. Status r = []" using sb sc by simp
  note t = ComputeDiff_classifies [of "[hostB, hostC]" "[hostA, hostB]"]
  have r: "map (\<lambda>r. if key r \<in> keys [hostA, hostB] then [] else ''NEW'') [hostB, hostC]
           = [[], ''NEW'']"
    by code_simp
  have m: "map Status (take (length [hostB, hostC]) (ComputeDiff [hostB, hostC] [hostA, hostB]))
           = [[], ''NEW'']"
    using t [THEN conjunct2, THEN conjunct1, THEN mp, OF h] by (simp only: r)
  have e: "ComputeDiff [hostB, hostC] [hostA, hostB]
           = [hostB, hostC\<lparr>Status := ''NEW''\<rparr>, hostA\<lparr>Status := ''GONE''\<rparr>]"
    by (rule t [THEN conjunct2, THEN conjunct2])
  have g: "map Status (ComputeDiff [hostB, hostC] [hostA, hostB]) = [[], ''NEW'', ''GONE'']"
    by (simp only: e) (simp add: sb)
  show ?thesis
    by (rule conjI [OF sb conjI [OF sc conjI [OF m g]]])
qed


section \<open>Address enumerator: properties\<close>

lemma bit_be32:
  "bit (be32 [a, b, c, d]) n \<longleftrightarrow>
     (n < 8 \<and> bit d n) \<or> (8 \<le> n \<and> n < 16 \<and> bit c (n - 8))
     \<or> (16 \<le> n \<and> n < 24 \<and> bit b (n - 16)) \<or> (24 \<le> n \<and> n < 32 \<and> bit a (n - 24))"
  by (auto simp: be32_def bit_or_iff bit_push_bit_iff bit_ucast_iff dest: bit_imp_le_length)

lemma be32_and:
  "be32 (map2 (AND) [a, b, c, d] [e, f, g, k]) = be32 [a, b, c, d] AND be32 [e, f, g, k]"
  by (rule bit_eqI) (auto simp: bit_be32 bit_and_iff)

lemma be32_inj:
  assumes "be32 [a, b, c, d] = be32 [e, f, g, k]"
  shows "[a, b, c, d] = [e, f, g, k]"
proof -
  have eq: "bit (be32 [a, b, c, d]) n = bit (be32 [e, f, g, k]) n" for n
    using assms by simp
  have "d = k"
  proof (rule bit_eqI)
    fix n assume "possible_bit TYPE(byte) n"
    then have "n < 8" by (simp add: possible_bit_def)
    then show "bit d n = bit k n" using eq [of n] by (simp add: bit_be32)
  qed
  moreover have "c = g"
  proof (rule bit_eqI)
    fix n assume "possible_bit TYPE(byte) n"
    then have "n < 8" by (simp add: possible_bit_def)
    then show "bit c n = bit g n" using eq [of "n + 8"] by (simp add: bit_be32)
  qed
  moreover have "b = f"
  proof (rule bit_eqI)
    fix n assume "possible_bit TYPE(byte) n"
    then have "n < 8" by (simp add: possible_bit_def)
    then show "bit b n = bit f n" using eq [of "n + 16"] by (simp add: bit_be32)
  qed
  moreover have "a = e"
  proof (rule bit_eqI)
    fix n assume "possible_bit TYPE(byte) n"
    then have "n < 8" by (simp add: possible_bit_def)
    then show "bit a n = bit e n" using eq [of "n + 24"] by (simp add: bit_be32)
  qed
  ultimately show ?thesis by simp
qed

lemma be32_ip_of_nat: "be32 (ip_of_nat n) = of_nat n"
proof (rule bit_eqI)
  fix k assume "possible_bit TYPE(32 word) k"
  then have k: "k < 32" by (simp add: possible_bit_def)
  have e: "ip_of_nat n = [of_nat (drop_bit 24 n), of_nat (drop_bit 16 n), of_nat (drop_bit 8 n), of_nat n]"
    by (simp add: ip_of_nat_def drop_bit_eq_div)
  consider "k < 8" | "8 \<le> k" "k < 16" | "16 \<le> k" "k < 24" | "24 \<le> k" "k < 32"
    using k by linarith
  then show "bit (be32 (ip_of_nat n)) k = bit (of_nat n :: 32 word) k"
    unfolding e
    by cases (auto simp: bit_be32 bit_of_nat_iff bit_drop_bit_eq)
qed

lemma and_not_mask_eq_iff:
  "(u :: 32 word) AND NOT (mask h) = v AND NOT (mask h) \<longleftrightarrow> unat u div 2 ^ h = unat v div 2 ^ h"
proof -
  have "(u AND NOT (mask h) = v AND NOT (mask h)) \<longleftrightarrow> drop_bit h u = drop_bit h v"
  proof
    assume a: "u AND NOT (mask h) = v AND NOT (mask h)"
    show "drop_bit h u = drop_bit h v"
    proof (rule bit_eqI)
      fix n assume "possible_bit TYPE(32 word) n"
      have "bit (u AND NOT (mask h)) (h + n) = bit (v AND NOT (mask h)) (h + n)"
        using a by simp
      then show "bit (drop_bit h u) n = bit (drop_bit h v) n"
        by (auto simp: bit_drop_bit_eq bit_and_iff bit_not_iff bit_mask_iff
                 dest: bit_imp_possible_bit)
    qed
  next
    assume a: "drop_bit h u = drop_bit h v"
    show "u AND NOT (mask h) = v AND NOT (mask h)"
    proof (rule bit_eqI)
      fix n assume "possible_bit TYPE(32 word) n"
      have "bit (drop_bit h u) (n - h) = bit (drop_bit h v) (n - h)" using a by simp
      then show "bit (u AND NOT (mask h)) n = bit (v AND NOT (mask h)) n"
        by (auto simp: bit_drop_bit_eq bit_and_iff bit_not_iff bit_mask_iff)
    qed
  qed
  also have "\<dots> \<longleftrightarrow> unat (drop_bit h u) = unat (drop_bit h v)"
    by (simp add: word_unat_eq_iff)
  also have "\<dots> \<longleftrightarrow> unat u div 2 ^ h = unat v div 2 ^ h"
    by (simp only: unat_drop_bit_eq) (simp add: drop_bit_eq_div)
  finally show ?thesis .
qed

lemma CIDRMask_facts:
  "\<forall>p \<in> set [0..<33]. be32 (CIDRMask (int p) 32) = NOT (mask (32 - p))
      \<and> length (CIDRMask (int p) 32) = 4 \<and> Size (CIDRMask (int p) 32) = (int p, 32)"
  by code_simp


section \<open>Scan orchestrator: properties\<close>

lemma key_cloneIP [simp]: "cloneIP ip = ip"
  by (simp add: cloneIP_def)

lemma key_rec [simp]:
  "key \<lparr> IP = ip, Hostname = h, MAC = m, Vendor = v, Method = me, OpenPorts = p, Status = s \<rparr>
     = ipString ip"
  by (simp add: key_def)

lemma key_Status_update [simp]: "key (r\<lparr>Status := s\<rparr>) = key r"
  by (simp add: key_def)

lemma scan_job_inv: "scan_inv st \<Longrightarrow> scan_inv (scan_job envs hosts idx st)"
  by (cases st)
     (auto simp: scan_inv_def scan_job_def Let_def lookup_def keys_def
           split: prod.splits if_splits)

lemma fold_scan_job_inv: "scan_inv st \<Longrightarrow> scan_inv (fold (scan_job envs hosts) order st)"
  by (induction order arbitrary: st) (simp_all add: scan_job_inv)

lemma scan_phase1_inv: "scan_inv (scan_phase1 envs hosts order)"
  unfolding scan_phase1_def
  by (rule fold_scan_job_inv) (simp add: scan_inv_def keys_def)


lemma arp_loop_set:
  "set (arp_loop arpTable foundSet hosts results) \<subseteq> set results \<union> {r. Status r = []}"
proof (induction hosts arbitrary: results)
  case Nil
  then show ?case by simp
next
  case (Cons ip rest)
  let ?new = "\<lparr> IP = cloneIP ip, Hostname = [], MAC = [], Vendor = [],
                 Method = ''ARP'', OpenPorts = None, Status = [] \<rparr>"
  have a: "set (arp_loop arpTable foundSet rest results) \<subseteq> set results \<union> {r. Status r = []}"
    by (rule Cons.IH)
  have "set (arp_loop arpTable foundSet rest (results @ [?new]))
          \<subseteq> set (results @ [?new]) \<union> {r. Status r = []}"
    by (rule Cons.IH)
  then have b: "set (arp_loop arpTable foundSet rest (results @ [?new]))
          \<subseteq> set results \<union> {r. Status r = []}"
    by auto
  show ?case
    using a b by (simp add: Let_def split: option.splits)
qed

lemma arp_loop_status:
  "\<forall>r \<in> set results. Status r = [] \<Longrightarrow>
   \<forall>r \<in> set (arp_loop arpTable foundSet hosts results). Status r = []"
  using arp_loop_set [of arpTable foundSet hosts results] by auto


lemma Scan_status: "\<forall>r \<in> set (Scan envs arpTable order hosts). Status r = []"
proof -
  obtain fs rs where p: "scan_phase1 envs hosts order = (fs, rs)"
    by (cases "scan_phase1 envs hosts order")
  from scan_phase1_inv [of envs hosts order] p
  have "\<forall>r \<in> set rs. Status r = []" by (simp add: scan_inv_def)
  then show ?thesis unfolding Scan_def p by (simp add: arp_loop_status)
qed


lemma key_enrich [simp]: "key (enrich co r) = key r"
  by (simp add: enrich_def key_def Let_def split: option.splits)

lemma Status_enrich [simp]: "Status (enrich co r) = Status r"
  by (simp add: enrich_def Let_def split: option.splits)


lemma live_ComputeDiff:
  assumes "\<forall>r \<in> set c. Status r \<noteq> ''GONE''"
  shows "map key (live (ComputeDiff c p)) = map key c"
proof -
  have a: "filter (\<lambda>r. Status r \<noteq> ''GONE'')
             (map (\<lambda>r. if key r \<in> keys p then r else r\<lparr>Status := ''NEW''\<rparr>) c)
           = map (\<lambda>r. if key r \<in> keys p then r else r\<lparr>Status := ''NEW''\<rparr>) c"
    using assms by (induction c) auto
  have b: "filter (\<lambda>r. Status r \<noteq> ''GONE'')
             (map (\<lambda>r. r\<lparr>Status := ''GONE''\<rparr>) (filter (\<lambda>r. key r \<notin> keys c) p)) = []"
    by (simp add: filter_empty_conv)
  have k: "map key (map (\<lambda>r. if key r \<in> keys p then r else r\<lparr>Status := ''NEW''\<rparr>) c) = map key c"
    by (induction c) simp_all
  show ?thesis
    by (simp only: live_def ComputeDiff_char filter_append a b append_Nil2 k)
qed








section \<open>History store: properties\<close>

subsection \<open>Printing and parsing an IPv4 address\<close>



























lemma ParseIP_nil: "ParseIP p6 (ipString []) = []"
  by (simp add: ipString_def ParseIP_def)


subsection \<open>Saving and loading\<close>

lemma save_loop_char:
  "length entries = i + length rs \<Longrightarrow>
   save_loop i rs entries = take i entries @ map to_entry rs"
proof (induction rs arbitrary: i entries)
  case Nil
  then show ?case by simp
next
  case (Cons r rs)
  have "save_loop i (r # rs) entries = save_loop (Suc i) rs (entries[i := to_entry r])" by simp
  also have "\<dots> = take (Suc i) (entries[i := to_entry r]) @ map to_entry rs"
    using Cons.prems by (intro Cons.IH) simp
  also have "take (Suc i) (entries[i := to_entry r]) = take i entries @ [to_entry r]"
    using Cons.prems by (simp add: take_Suc_conv_app_nth)
  finally show ?case by simp
qed











lemma SaveHistory_ok:
  "SaveHistory faults file results = (None, file') \<Longrightarrow>
   file' = Some (Doc (Marshal (map to_entry results)))"
  by (auto simp: SaveHistory_def save_loop_char Let_def split: if_splits)



lemma toSave_loop_char: "toSave_loop rs acc = acc @ filter (\<lambda>r. Status r \<noteq> ''GONE'') rs"
  by (induction rs arbitrary: acc) simp_all


lemma mset_live:
  "mset ys = mset xs \<Longrightarrow> mset (map key (live ys)) = mset (map key (live xs))"
  by (simp add: live_def mset_filter)

lemma main_diff_live_keys:
  assumes m: "main_diff co scanned previous s1 final"
    and st: "\<forall>r \<in> set scanned. Status r = []"
  shows "mset (map key (live final)) = mset (map key scanned)"
proof -
  from m have m1: "mset s1 = mset (map (enrich co) scanned)"
    and m2: "mset final = mset (ComputeDiff s1 previous)"
    by (simp_all add: main_diff_def sort_Slice_def)
  from m1 have "set s1 = set (map (enrich co) scanned)" by (rule mset_eq_setD)
  with st have "\<forall>r \<in> set s1. Status r \<noteq> ''GONE''" by auto
  then have k: "map key (live (ComputeDiff s1 previous)) = map key s1"
    by (rule live_ComputeDiff)
  have "mset (map key (live final)) = mset (map key (live (ComputeDiff s1 previous)))"
    using m2 by (rule mset_live)
  also have "\<dots> = mset (map key s1)" by (simp only: k)
  also have "\<dots> = mset (map key (map (enrich co) scanned))"
    using m1 by (metis mset_map)
  also have "map key (map (enrich co) scanned) = map key scanned"
    by (induction scanned) simp_all
  finally show ?thesis .
qed



text \<open>
  C5. When the save step of \<^verbatim>\<open>main\<close> succeeds, the history file holds exactly the entries
  of the final result set whose status is not GONE, in their order: no GONE entry is
  persisted. For the final set of a diff run these are the hosts of the current scan.
  When the directory cannot be created nothing is written.
\<close>

theorem saved_history_excludes_gone:
  "(main_save faults file final = (None, file')
      \<longrightarrow> file' = Some (Doc (Marshal (map to_entry (filter (\<lambda>r. Status r \<noteq> ''GONE'') final)))))
   \<and> (main_diff co (Scan envs arpTable order hosts) previous s1 final
      \<longrightarrow> mset (map hIP (map to_entry (filter (\<lambda>r. Status r \<noteq> ''GONE'') final)))
          = mset (map key (Scan envs arpTable order hosts)))
   \<and> (mkdir_fails faults \<longrightarrow> snd (main_save faults file final) = file)"
proof (intro conjI impI)
  assume "main_save faults file final = (None, file')"
  then have "file' = Some (Doc (Marshal (map to_entry (toSave_loop final []))))"
    unfolding main_save_def by (rule SaveHistory_ok)
  then show "file' = Some (Doc (Marshal (map to_entry (filter (\<lambda>r. Status r \<noteq> ''GONE'') final))))"
    by (simp add: toSave_loop_char)
next
  assume m: "main_diff co (Scan envs arpTable order hosts) previous s1 final"
  have h: "map hIP (map to_entry rs) = map key rs" for rs
    by (simp add: to_entry_def key_def Let_def)
  show "mset (map hIP (map to_entry (filter (\<lambda>r. Status r \<noteq> ''GONE'') final)))
          = mset (map key (Scan envs arpTable order hosts))"
    using main_diff_live_keys [OF m Scan_status] by (simp only: h live_def)
next
  assume "mkdir_fails faults"
  then show "snd (main_save faults file final) = file"
    by (simp add: main_save_def SaveHistory_def)
qed

theorem saved_history_excludes_gone_witness:
  "main_save no_faults None [hostA\<lparr>Status := ''GONE''\<rparr>, enriched_5\<lparr>Status := ''NEW''\<rparr>]
     = (None, Some (Doc (JArr
         [JObj [(''ip'', JStr ''10.0.0.5''), (''hostname'', JStr []), (''mac'', JStr ''-''),
                (''vendor'', JStr ''-''), (''method'', JStr ''ARP''), (''open_ports'', JArr [])]])))
   \<and> Some (Doc (JArr
         [JObj [(''ip'', JStr ''10.0.0.5''), (''hostname'', JStr []), (''mac'', JStr ''-''),
                (''vendor'', JStr ''-''), (''method'', JStr ''ARP''), (''open_ports'', JArr [])]]))
     = Some (Doc (Marshal (map to_entry (filter (\<lambda>r. Status r \<noteq> ''GONE'')
         [hostA\<lparr>Status := ''GONE''\<rparr>, enriched_5\<lparr>Status := ''NEW''\<rparr>]))))"
proof -
  have c: "main_save no_faults None [hostA\<lparr>Status := ''GONE''\<rparr>, enriched_5\<lparr>Status := ''NEW''\<rparr>]
     = (None, Some (Doc (JArr
         [JObj [(''ip'', JStr ''10.0.0.5''), (''hostname'', JStr []), (''mac'', JStr ''-''),
                (''vendor'', JStr ''-''), (''method'', JStr ''ARP''), (''open_ports'', JArr [])]])))"
    by code_simp
  from saved_history_excludes_gone
         [THEN conjunct1, rule_format, OF c] c
  show ?thesis by simp
qed

section \<open>Open ports of the rendered result set\<close>

lemma tcpProbe_loop_ports:
  "elems (snd (fst (tcpProbe_loop env ip ports alive op log)))
     = elems op @ filter (\<lambda>p. dial env ip p = Accepted) ports"
proof (induction ports arbitrary: alive op log)
  case Nil
  then show ?case by simp
next
  case (Cons port rest)
  have a: "elems (append_int op port) = elems op @ [port]" by (cases op) simp_all
  show ?case
    by (cases "dial env ip port") (simp_all add: Cons.IH a)
qed

lemma tcpProbe_ports:
  "elems (snd (fst (tcpProbe env ip))) = filter (\<lambda>p. dial env ip p = Accepted) tcpPorts"
  by (simp add: tcpProbe_def tcpProbe_loop_ports)

lemma detectHost_ports: "subseq (elems (snd (fst (detectHost env ip)))) tcpPorts"
proof -
  have "elems (snd (fst (detectHost env ip))) = elems (snd (fst (tcpProbe env ip)))
        \<or> elems (snd (fst (detectHost env ip))) = []"
    by (cases "tcpProbe env ip"; cases "udpProbe env ip")
       (auto simp: detectHost_def icmpPing_def split: prod.splits)
  then show ?thesis
    by (auto simp: tcpProbe_ports)
qed

lemma scan_job_ports:
  assumes "\<forall>r \<in> set (snd st). subseq (elems (OpenPorts r)) tcpPorts"
  shows "\<forall>r \<in> set (snd (scan_job envs hosts idx st)). subseq (elems (OpenPorts r)) tcpPorts"
proof -
  obtain fs rs where st: "st = (fs, rs)" by (cases st)
  obtain m ps where d: "fst (detectHost (envs idx) (ipString (hosts ! idx))) = (m, ps)"
    by (cases "fst (detectHost (envs idx) (ipString (hosts ! idx)))")
  have "subseq (elems ps) tcpPorts"
    using detectHost_ports [of "envs idx" "ipString (hosts ! idx)"] d by simp
  with assms show ?thesis
    by (auto simp: st scan_job_def Let_def d)
qed

lemma fold_scan_job_ports:
  "\<forall>r \<in> set (snd st). subseq (elems (OpenPorts r)) tcpPorts \<Longrightarrow>
   \<forall>r \<in> set (snd (fold (scan_job envs hosts) order st)). subseq (elems (OpenPorts r)) tcpPorts"
proof (induction order arbitrary: st)
  case Nil
  then show ?case by simp
next
  case (Cons idx rest)
  show ?case
    using Cons.IH [OF scan_job_ports [OF Cons.prems]] by simp
qed

lemma arp_loop_ports:
  "set (arp_loop arpTable foundSet hosts results)
     \<subseteq> set results \<union> {r. OpenPorts r = None}"
proof (induction hosts arbitrary: results)
  case Nil
  then show ?case by simp
next
  case (Cons ip rest)
  let ?new = "\<lparr> IP = cloneIP ip, Hostname = [], MAC = [], Vendor = [],
                 Method = ''ARP'', OpenPorts = None, Status = [] \<rparr>"
  have a: "set (arp_loop arpTable foundSet rest results) \<subseteq> set results \<union> {r. OpenPorts r = None}"
    by (rule Cons.IH)
  have "set (arp_loop arpTable foundSet rest (results @ [?new]))
          \<subseteq> set (results @ [?new]) \<union> {r. OpenPorts r = None}"
    by (rule Cons.IH)
  then have b: "set (arp_loop arpTable foundSet rest (results @ [?new]))
          \<subseteq> set results \<union> {r. OpenPorts r = None}"
    by auto
  show ?case
    using a b by (simp add: Let_def split: option.splits)
qed

lemma Scan_ports:
  "\<forall>r \<in> set (Scan envs arpTable order hosts). subseq (elems (OpenPorts r)) tcpPorts"
proof -
  obtain fs rs where p: "scan_phase1 envs hosts order = (fs, rs)"
    by (cases "scan_phase1 envs hosts order")
  have "\<forall>r \<in> set (snd (scan_phase1 envs hosts order)). subseq (elems (OpenPorts r)) tcpPorts"
    unfolding scan_phase1_def by (rule fold_scan_job_ports) simp
  then have rs: "\<forall>r \<in> set rs. subseq (elems (OpenPorts r)) tcpPorts" by (simp add: p)
  show ?thesis
    unfolding Scan_def p using rs arp_loop_ports [of arpTable fs hosts rs] by auto
qed

lemma OpenPorts_enrich [simp]: "OpenPorts (enrich co r) = OpenPorts r"
  by (simp add: enrich_def Let_def split: option.splits)

lemma live_ComputeDiff_ports:
  assumes "r \<in> set (ComputeDiff c p)" and "Status r \<noteq> ''GONE''"
  shows "\<exists>x \<in> set c. OpenPorts r = OpenPorts x"
  using assms by (auto simp: ComputeDiff_char split: if_splits)

lemma main_diff_ports:
  assumes m: "main_diff co (Scan envs arpTable order hosts) previous s1 final"
    and r: "r \<in> set final" and s: "Status r \<noteq> ''GONE''"
  shows "subseq (elems (OpenPorts r)) tcpPorts"
proof -
  from m have e1: "mset s1 = mset (map (enrich co) (Scan envs arpTable order hosts))"
    and e2: "mset final = mset (ComputeDiff s1 previous)"
    by (simp_all add: main_diff_def sort_Slice_def)
  have m1: "set s1 = set (map (enrich co) (Scan envs arpTable order hosts))"
    using e1 by (rule mset_eq_setD)
  have m2: "set final = set (ComputeDiff s1 previous)"
    using e2 by (rule mset_eq_setD)
  from r m2 s obtain x where x: "x \<in> set s1" "OpenPorts r = OpenPorts x"
    using live_ComputeDiff_ports by blast
  from x(1) m1 obtain y where y: "y \<in> set (Scan envs arpTable order hosts)" "OpenPorts x = OpenPorts y"
    by auto
  from y(1) have "subseq (elems (OpenPorts y)) tcpPorts" using Scan_ports by blast
  with x(2) y(2) show ?thesis by simp
qed

lemma Scan_smb: "Scan envs_smb arp_none [0] [[10, 0, 0, 5]] = [host [10, 0, 0, 5] ''TCP'' (Some [445, 139])]"
  by code_simp

lemma main_diff_smb:
  "main_diff no_collaborators [host [10, 0, 0, 5] ''TCP'' (Some [445, 139])] []
     [smb_host] [smb_host\<lparr>Status := ''NEW''\<rparr>]"
  by code_simp

text \<open>
  C7, as the claim states it, fails: a host with the two SMB ports open reaches the
  renderer, after enrichment, sorting and the diff, with the port list 445, 139, which is
  not ascending.
\<close>

theorem open_ports_ascending_counterexample:
  "main_diff no_collaborators (Scan envs_smb arp_none [0] [[10, 0, 0, 5]]) []
     [smb_host] [smb_host\<lparr>Status := ''NEW''\<rparr>]
   \<and> elems (OpenPorts (smb_host\<lparr>Status := ''NEW''\<rparr>)) = [445, 139]
   \<and> \<not> sorted (elems (OpenPorts (smb_host\<lparr>Status := ''NEW''\<rparr>)))"
proof -
  have a: "main_diff no_collaborators (Scan envs_smb arp_none [0] [[10, 0, 0, 5]]) []
     [smb_host] [smb_host\<lparr>Status := ''NEW''\<rparr>]"
    by (simp only: Scan_smb main_diff_smb)
  have b: "elems (OpenPorts (smb_host\<lparr>Status := ''NEW''\<rparr>)) = [445, 139]"
    by (simp add: smb_host_def host_def)
  have c: "\<not> sorted (elems (OpenPorts (smb_host\<lparr>Status := ''NEW''\<rparr>)))"
    by (simp only: b) simp
  show ?thesis by (intro conjI) (fact a b c)+
qed

text \<open>
  C7, amended. Every entry of the post-diff result set handed to the renderer that is
  not GONE, and every entry that \<^verbatim>\<open>Scan\<close> returns, lists its open ports in the order in
  which \<^verbatim>\<open>tcpPorts\<close> lists them (the list is a subsequence of \<^verbatim>\<open>tcpPorts\<close>); that order is
  not ascending, since 445 comes before 139.
\<close>

theorem open_ports_in_probe_order:
  "(\<forall>r \<in> set (Scan envs arpTable order hosts). subseq (elems (OpenPorts r)) tcpPorts)
   \<and> (main_diff co (Scan envs arpTable order hosts) previous s1 final \<longrightarrow>
        (\<forall>r \<in> set final. Status r \<noteq> ''GONE'' \<longrightarrow> subseq (elems (OpenPorts r)) tcpPorts))
   \<and> \<not> sorted tcpPorts"
proof (intro conjI impI ballI)
  fix r assume "r \<in> set (Scan envs arpTable order hosts)"
  then show "subseq (elems (OpenPorts r)) tcpPorts" using Scan_ports by blast
next
  fix r
  assume "main_diff co (Scan envs arpTable order hosts) previous s1 final"
    and "r \<in> set final" and "Status r \<noteq> ''GONE''"
  then show "subseq (elems (OpenPorts r)) tcpPorts" by (rule main_diff_ports)
next
  show "\<not> sorted tcpPorts" by (simp add: tcpPorts_def)
qed

theorem open_ports_in_probe_order_witness:
  "main_diff no_collaborators (Scan envs_smb arp_none [0] [[10, 0, 0, 5]]) []
     [smb_host] [smb_host\<lparr>Status := ''NEW''\<rparr>]
   \<and> Status (smb_host\<lparr>Status := ''NEW''\<rparr>) \<noteq> ''GONE''
   \<and> subseq (elems (OpenPorts (smb_host\<lparr>Status := ''NEW''\<rparr>))) tcpPorts"
proof -
  have a: "main_diff no_collaborators (Scan envs_smb arp_none [0] [[10, 0, 0, 5]]) []
     [smb_host] [smb_host\<lparr>Status := ''NEW''\<rparr>]"
    by (simp only: Scan_smb main_diff_smb)
  have b: "Status (smb_host\<lparr>Status := ''NEW''\<rparr>) \<noteq> ''GONE''" by simp
  have m: "smb_host\<lparr>Status := ''NEW''\<rparr> \<in> set [smb_host\<lparr>Status := ''NEW''\<rparr>]" by simp
  have c: "subseq (elems (OpenPorts (smb_host\<lparr>Status := ''NEW''\<rparr>))) tcpPorts"
    using open_ports_in_probe_order
            [of envs_smb arp_none "[0]" "[[10, 0, 0, 5]]" no_collaborators "[]" "[smb_host]"
                "[smb_host\<lparr>Status := ''NEW''\<rparr>]",
             THEN conjunct2, THEN conjunct1, THEN mp, OF a, THEN bspec, OF m, THEN mp, OF b] .
  show ?thesis by (intro conjI) (fact a b c)+
qed

end
